theory Spec2Isabelle
  imports Complex_Main
begin

section \<open>Values, errors and the environment\<close>

text \<open>
  The Python dictionaries handled by the cache classes hold JSON values. A dictionary is
  an association list in insertion order with pairwise distinct keys, which is the order
  \<^verbatim>\<open>items()\<close> and \<^verbatim>\<open>json.dump\<close> follow. Floating-point JSON numbers do not
  occur in the records the claims are about and are left out.
\<close>

datatype json =
    JNull
  | JBool bool
  | JInt int
  | JStr string
  | JList "json list"
  | JObj "(string \<times> json) list"

type_synonym dict = "(string \<times> json) list"

text \<open>The exceptions the modelled code can raise, as values.\<close>

datatype error =
    FileNotFoundError string
  | JSONDecodeError
  | KeyError string
  | ValueError string
  | AttributeError
  | InvalidToken
  | UnboundLocalError
  | SpotifyException string

text \<open>
  The content of a file is either the text \<^verbatim>\<open>json.dump\<close> writes for a JSON value
  (\<open>Doc\<close>, identified with the value \<^verbatim>\<open>json.load\<close> reads back from it), or any
  other bytes (\<open>Raw\<close>), on which \<^verbatim>\<open>json.load\<close> raises \<^verbatim>\<open>JSONDecodeError\<close>.
\<close>

datatype content = Raw string | Doc json

record disk_file =
  content :: content
  mtime :: real

text \<open>
  The environment of the process: the directories and regular files of the file system,
  the clock read by \<^verbatim>\<open>time.time()\<close> (also the time stamp a write leaves on a file), and
  a counter standing for the operating system's randomness: every key generation and
  every encryption draws the current value and advances it.
\<close>

record world =
  dirs :: "string set"
  files :: "string \<rightharpoonup> disk_file"
  now :: real
  entropy :: nat

definition dirname :: "string \<Rightarrow> string" where
  "dirname p = rev (drop 1 (dropWhile (\<lambda>c. c \<noteq> CHR ''/'') (rev p)))"

definition path_exists :: "world \<Rightarrow> string \<Rightarrow> bool" where
  "path_exists w p = (files w p \<noteq> None)"

text \<open>\<^verbatim>\<open>open(p, 'r')\<close> followed by reading the whole file.\<close>

definition read_file :: "world \<Rightarrow> string \<Rightarrow> error + content" where
  "read_file w p =
     (case files w p of
        None \<Rightarrow> Inl (FileNotFoundError p)
      | Some f \<Rightarrow> Inr (content f))"

text \<open>
  \<^verbatim>\<open>open(p, 'w')\<close> followed by writing the whole content: the file is created or
  overwritten and stamped with the current time. Python creates no directory: the call
  raises \<^verbatim>\<open>FileNotFoundError\<close> when the directory of \<open>p\<close> does not exist.
\<close>

definition write_file :: "world \<Rightarrow> string \<Rightarrow> content \<Rightarrow> (error + unit) \<times> world" where
  "write_file w p c =
     (if dirname p \<in> dirs w
      then (Inr (), w\<lparr>files := (files w)(p \<mapsto> \<lparr>content = c, mtime = now w\<rparr>)\<rparr>)
      else (Inl (FileNotFoundError p), w))"

definition json_load :: "content \<Rightarrow> error + json" where
  "json_load c = (case c of Doc j \<Rightarrow> Inr j | Raw _ \<Rightarrow> Inl JSONDecodeError)"

subsection \<open>Dictionary operations\<close>

text \<open>\<^verbatim>\<open>d.pop(k)\<close>: the value and the dictionary without the key, or \<^verbatim>\<open>KeyError\<close>.\<close>

definition dict_pop :: "string \<Rightarrow> dict \<Rightarrow> error + (json \<times> dict)" where
  "dict_pop k d =
     (case map_of d k of
        None \<Rightarrow> Inl (KeyError k)
      | Some v \<Rightarrow> Inr (v, filter (\<lambda>kv. fst kv \<noteq> k) d))"

text \<open>\<^verbatim>\<open>d[k] = v\<close>: an existing key keeps its position, a new key goes to the end.\<close>

fun dict_set :: "'k \<Rightarrow> 'v \<Rightarrow> ('k \<times> 'v) list \<Rightarrow> ('k \<times> 'v) list" where
  "dict_set k v [] = [(k, v)]"
| "dict_set k v (kv # d) = (if fst kv = k then (k, v) # d else kv # dict_set k v d)"

subsection \<open>The encryption library\<close>

text \<open>
  \<^verbatim>\<open>cryptography.fernet.Fernet\<close> is not part of the repository; its four operations are
  parameters of the model. A \<^verbatim>\<open>Fernet\<close> object is identified with the key bytes it was
  built from. \<open>valid_key\<close> says whether \<^verbatim>\<open>Fernet(bytes)\<close> accepts the bytes,
  \<open>generate_key\<close> and \<open>encrypt\<close> take the randomness they draw, and \<open>decrypt\<close>
  is \<open>None\<close> where the library raises \<^verbatim>\<open>InvalidToken\<close>. Strings stand for both
  \<^verbatim>\<open>str\<close> and \<^verbatim>\<open>bytes\<close>: \<^verbatim>\<open>encode()\<close> and \<^verbatim>\<open>decode()\<close> are the identity.
\<close>

type_synonym fernet = string

record cipher =
  valid_key :: "string \<Rightarrow> bool"
  generate_key :: "nat \<Rightarrow> string"
  encrypt :: "fernet \<Rightarrow> nat \<Rightarrow> string \<Rightarrow> string"
  decrypt :: "fernet \<Rightarrow> string \<Rightarrow> string option"

definition Fernet :: "cipher \<Rightarrow> string \<Rightarrow> error + fernet" where
  "Fernet C b = (if valid_key C b then Inr b else Inl (ValueError ''Fernet key''))"

text \<open>
  What the library promises: a generated key is accepted, and decrypting a token with
  the key that produced it gives the plain text back.
\<close>

definition fernet_ok :: "cipher \<Rightarrow> bool" where
  "fernet_ok C \<longleftrightarrow>
     (\<forall>n. valid_key C (generate_key C n)) \<and>
     (\<forall>k n s. valid_key C k \<longrightarrow> decrypt C k (encrypt C k n s) = Some s)"

text \<open>
  A small concrete cipher satisfying \<open>fernet_ok\<close>, used to run the model: keys are four
  characters, a token is the key followed by a marker and the plain text.
\<close>

definition demo_cipher :: cipher where
  "demo_cipher =
     \<lparr>valid_key = (\<lambda>k. length k = 4),
      generate_key = (\<lambda>n. replicate 4 (char_of n)),
      encrypt = (\<lambda>k n s. k @ CHR ''#'' # s),
      decrypt = (\<lambda>k t. if take (length k) t = k \<and> drop (length k) t \<noteq> []
                        then Some (drop (Suc (length k)) t) else None)\<rparr>"

section \<open>util.py\<close>

definition key_file :: string where
  "key_file = ''../cache/keys/spotify.key''"

text \<open>
  \<^verbatim>\<open>get_fernet_key\<close>: an existing key file is read and its bytes wrapped; otherwise a
  key is generated, written to the key file and wrapped. A key file holding a JSON text is
  never a valid key.
\<close>

definition get_fernet_key :: "cipher \<Rightarrow> world \<Rightarrow> (error + fernet) \<times> world" where
  "get_fernet_key C w =
     (if path_exists w key_file then
        (case read_file w key_file of
           Inl e \<Rightarrow> (Inl e, w)
         | Inr (Raw b) \<Rightarrow> (Fernet C b, w)
         | Inr (Doc j) \<Rightarrow> (Inl (ValueError ''Fernet key''), w))
      else
        (let key = generate_key C (entropy w);
             w1 = w\<lparr>entropy := Suc (entropy w)\<rparr>
         in case write_file w1 key_file (Raw key) of
              (Inl e, w2) \<Rightarrow> (Inl e, w2)
            | (Inr _, w2) \<Rightarrow> (Fernet C key, w2)))"

section \<open>file_handler.py\<close>

text \<open>\<^verbatim>\<open>v.encode()\<close> exists on strings only.\<close>

definition py_encode :: "json \<Rightarrow> error + string" where
  "py_encode v = (case v of JStr s \<Rightarrow> Inr s | _ \<Rightarrow> Inl AttributeError)"

text \<open>\<^verbatim>\<open>j.items()\<close> exists on dictionaries only.\<close>

definition py_items :: "json \<Rightarrow> error + dict" where
  "py_items j = (case j of JObj d \<Rightarrow> Inr d | _ \<Rightarrow> Inl AttributeError)"

subsection \<open>CredentialsFileHandler\<close>

definition credentials_path :: string where
  "credentials_path = ''../cache/spotify_credentials.json''"

record CredentialsFileHandler =
  cred_fernet_key :: fernet
  credentials :: "dict option"

text \<open>
  The comprehension of \<^verbatim>\<open>save_credentials_to_file\<close>:
  \<^verbatim>\<open>{k: fernet_key.encrypt(v.encode()).decode() for k, v in credentials.items()}\<close>,
  threading the randomness counter through the items in order.
\<close>

fun encrypt_credentials :: "cipher \<Rightarrow> fernet \<Rightarrow> nat \<Rightarrow> dict \<Rightarrow> (error + dict) \<times> nat" where
  "encrypt_credentials C fk n [] = (Inr [], n)"
| "encrypt_credentials C fk n ((k, v) # d) =
     (case py_encode v of
        Inl e \<Rightarrow> (Inl e, n)
      | Inr s \<Rightarrow>
          (case encrypt_credentials C fk (Suc n) d of
             (Inl e, n') \<Rightarrow> (Inl e, n')
           | (Inr d', n') \<Rightarrow> (Inr ((k, JStr (encrypt C fk n s)) # d'), n')))"

text \<open>
  The comprehension of \<^verbatim>\<open>retrieve_credentials\<close>:
  \<^verbatim>\<open>{k: fernet_key.decrypt(v.encode()).decode() for k, v in credentials_data.items()}\<close>.
\<close>

fun decrypt_credentials :: "cipher \<Rightarrow> fernet \<Rightarrow> dict \<Rightarrow> error + dict" where
  "decrypt_credentials C fk [] = Inr []"
| "decrypt_credentials C fk ((k, v) # d) =
     (case py_encode v of
        Inl e \<Rightarrow> Inl e
      | Inr t \<Rightarrow>
          (case decrypt C fk t of
             None \<Rightarrow> Inl InvalidToken
           | Some s \<Rightarrow>
               (case decrypt_credentials C fk d of
                  Inl e \<Rightarrow> Inl e
                | Inr d' \<Rightarrow> Inr ((k, JStr s) # d'))))"

text \<open>
  \<^verbatim>\<open>retrieve_credentials\<close>. A missing file and an undecodable file give \<^verbatim>\<open>None\<close>.
  An exception in the \<^verbatim>\<open>else\<close> branch (a value that is no dictionary, a value that
  is no string, a token the key does not decrypt) leaves the local \<^verbatim>\<open>credentials\<close>
  unassigned, so that the \<^verbatim>\<open>finally\<close> block raises \<^verbatim>\<open>UnboundLocalError\<close> in its
  place.
\<close>

definition retrieve_credentials ::
  "cipher \<Rightarrow> CredentialsFileHandler \<Rightarrow> world
     \<Rightarrow> (error + dict option) \<times> CredentialsFileHandler \<times> world" where
  "retrieve_credentials C h w =
     (case get_fernet_key C w of
        (Inl e, w1) \<Rightarrow> (Inl e, h, w1)
      | (Inr fk, w1) \<Rightarrow>
          (case read_file w1 credentials_path of
             Inl e \<Rightarrow> (Inr None, h\<lparr>credentials := None\<rparr>, w1)
           | Inr c \<Rightarrow>
               (case json_load c of
                  Inl e \<Rightarrow> (Inr None, h\<lparr>credentials := None\<rparr>, w1)
                | Inr credentials_data \<Rightarrow>
                    (case py_items credentials_data of
                       Inl e \<Rightarrow> (Inl UnboundLocalError, h, w1)
                     | Inr d \<Rightarrow>
                         (case decrypt_credentials C fk d of
                            Inl e \<Rightarrow> (Inl UnboundLocalError, h, w1)
                          | Inr creds \<Rightarrow>
                              (Inr (Some creds), h\<lparr>credentials := Some creds\<rparr>, w1))))))"

text \<open>\<^verbatim>\<open>__init__\<close>: fetch the key, then load the credentials.\<close>

definition CredentialsFileHandler_init ::
  "cipher \<Rightarrow> world \<Rightarrow> (error + CredentialsFileHandler) \<times> world" where
  "CredentialsFileHandler_init C w =
     (case get_fernet_key C w of
        (Inl e, w1) \<Rightarrow> (Inl e, w1)
      | (Inr fk, w1) \<Rightarrow>
          (case retrieve_credentials C \<lparr>cred_fernet_key = fk, credentials = None\<rparr> w1 of
             (Inl e, h, w2) \<Rightarrow> (Inl e, w2)
           | (Inr _, h, w2) \<Rightarrow> (Inr h, w2)))"

text \<open>
  \<^verbatim>\<open>save_credentials_to_file\<close>. An argument that is \<^verbatim>\<open>None\<close> or empty is replaced by
  the stored record; \<^verbatim>\<open>None.items()\<close> raises \<^verbatim>\<open>AttributeError\<close>.
\<close>

definition save_credentials_to_file ::
  "cipher \<Rightarrow> CredentialsFileHandler \<Rightarrow> dict option \<Rightarrow> world \<Rightarrow> (error + unit) \<times> world" where
  "save_credentials_to_file C h arg w =
     (let creds = (if arg = None \<or> arg = Some [] then credentials h else arg)
      in case creds of
           None \<Rightarrow> (Inl AttributeError, w)
         | Some d \<Rightarrow>
             (case encrypt_credentials C (cred_fernet_key h) (entropy w) d of
                (Inl e, n) \<Rightarrow> (Inl e, w\<lparr>entropy := n\<rparr>)
              | (Inr encrypted_credentials, n) \<Rightarrow>
                  write_file (w\<lparr>entropy := n\<rparr>) credentials_path
                    (Doc (JObj encrypted_credentials))))"

subsection \<open>CustomCacheFileHandler\<close>

definition CUSTOM_CACHE_PATH :: string where
  "CUSTOM_CACHE_PATH = ''../cache/token_cache.json''"

definition ATTRS_TO_ENCRYPT :: "json list" where
  "ATTRS_TO_ENCRYPT = [JStr ''access_token'', JStr ''refresh_token'']"

definition REFRESH_INTERVAL :: real where
  "REFRESH_INTERVAL = 100"

record CustomCacheFileHandler =
  cache_path :: string
  fernet_key :: fernet

definition CustomCacheFileHandler_init ::
  "cipher \<Rightarrow> world \<Rightarrow> (error + CustomCacheFileHandler) \<times> world" where
  "CustomCacheFileHandler_init C w =
     (case get_fernet_key C w of
        (Inl e, w1) \<Rightarrow> (Inl e, w1)
      | (Inr fk, w1) \<Rightarrow> (Inr \<lparr>cache_path = CUSTOM_CACHE_PATH, fernet_key = fk\<rparr>, w1))"

definition is_cache_fresh :: "CustomCacheFileHandler \<Rightarrow> world \<Rightarrow> bool" where
  "is_cache_fresh h w =
     (if path_exists w (cache_path h) then
        (case files w (cache_path h) of
           Some f \<Rightarrow>
             (let file_modification_time = mtime f;
                  current_time = now w
              in current_time - file_modification_time < REFRESH_INTERVAL)
         | None \<Rightarrow> False)
      else False)"

text \<open>
  The comprehension of \<^verbatim>\<open>save_token_to_cache\<close>:
  \<^verbatim>\<open>{k: fernet_key.encrypt(v.encode()).decode() if v in ATTRS_TO_ENCRYPT else v
      for k, v in token_info.items()}\<close>.
  The membership test is on the value \<open>v\<close> of each item, as the source has it.
\<close>

fun encrypt_token_info :: "cipher \<Rightarrow> fernet \<Rightarrow> nat \<Rightarrow> dict \<Rightarrow> (error + dict) \<times> nat" where
  "encrypt_token_info C fk n [] = (Inr [], n)"
| "encrypt_token_info C fk n ((k, v) # d) =
     (if v \<in> set ATTRS_TO_ENCRYPT then
        (case py_encode v of
           Inl e \<Rightarrow> (Inl e, n)
         | Inr s \<Rightarrow>
             (case encrypt_token_info C fk (Suc n) d of
                (Inl e, n') \<Rightarrow> (Inl e, n')
              | (Inr d', n') \<Rightarrow> (Inr ((k, JStr (encrypt C fk n s)) # d'), n')))
      else
        (case encrypt_token_info C fk n d of
           (Inl e, n') \<Rightarrow> (Inl e, n')
         | (Inr d', n') \<Rightarrow> (Inr ((k, v) # d'), n')))"

text \<open>
  The comprehension of \<^verbatim>\<open>get_cached_token\<close>:
  \<^verbatim>\<open>{k: fernet_key.decrypt(v.encode()).decode() if v in ATTRS_TO_ENCRYPT else v
      for k, v in token_info.items()}\<close>.
\<close>

fun decrypt_token_info :: "cipher \<Rightarrow> fernet \<Rightarrow> dict \<Rightarrow> error + dict" where
  "decrypt_token_info C fk [] = Inr []"
| "decrypt_token_info C fk ((k, v) # d) =
     (if v \<in> set ATTRS_TO_ENCRYPT then
        (case py_encode v of
           Inl e \<Rightarrow> Inl e
         | Inr t \<Rightarrow>
             (case decrypt C fk t of
                None \<Rightarrow> Inl InvalidToken
              | Some s \<Rightarrow>
                  (case decrypt_token_info C fk d of
                     Inl e \<Rightarrow> Inl e
                   | Inr d' \<Rightarrow> Inr ((k, JStr s) # d'))))
      else
        (case decrypt_token_info C fk d of
           Inl e \<Rightarrow> Inl e
         | Inr d' \<Rightarrow> Inr ((k, v) # d')))"

text \<open>
  \<^verbatim>\<open>save_token_to_cache\<close>: nothing happens on a fresh cache. Otherwise the values are
  encrypted, \<^verbatim>\<open>expires_in\<close> is popped (\<^verbatim>\<open>KeyError\<close> when absent) and stored under
  \<^verbatim>\<open>expires_at\<close>, and only then the file is opened and written.
\<close>

definition save_token_to_cache ::
  "cipher \<Rightarrow> CustomCacheFileHandler \<Rightarrow> dict \<Rightarrow> world \<Rightarrow> (error + unit) \<times> world" where
  "save_token_to_cache C h token_info w =
     (if \<not> is_cache_fresh h w then
        (case encrypt_token_info C (fernet_key h) (entropy w) token_info of
           (Inl e, n) \<Rightarrow> (Inl e, w\<lparr>entropy := n\<rparr>)
         | (Inr encrypted_token_info, n) \<Rightarrow>
             (case dict_pop ''expires_in'' encrypted_token_info of
                Inl e \<Rightarrow> (Inl e, w\<lparr>entropy := n\<rparr>)
              | Inr (v, popped) \<Rightarrow>
                  write_file (w\<lparr>entropy := n\<rparr>) (cache_path h)
                    (Doc (JObj (dict_set ''expires_at'' v popped)))))
      else (Inr (), w))"

text \<open>
  \<^verbatim>\<open>get_cached_token\<close>: \<^verbatim>\<open>None\<close> without a cache file; a file that does not parse
  raises, since nothing catches the decoding error here.
\<close>

definition get_cached_token ::
  "cipher \<Rightarrow> CustomCacheFileHandler \<Rightarrow> world \<Rightarrow> error + dict option" where
  "get_cached_token C h w =
     (if path_exists w (cache_path h) then
        (case read_file w (cache_path h) of
           Inl e \<Rightarrow> Inl e
         | Inr c \<Rightarrow>
             (case json_load c of
                Inl e \<Rightarrow> Inl e
              | Inr token_info \<Rightarrow>
                  (case py_items token_info of
                     Inl e \<Rightarrow> Inl e
                   | Inr d \<Rightarrow>
                       (case decrypt_token_info C (fernet_key h) d of
                          Inl e \<Rightarrow> Inl e
                        | Inr decrypted_token_info \<Rightarrow> Inr (Some decrypted_token_info)))))
      else Inr None)"

section \<open>playlist_info.py\<close>

subsection \<open>extract_playlist_id\<close>

text \<open>
  A character stands for the Unicode code point of the same number (U+0000 to U+00FF).
  \<open>is_id_char\<close> is the class \<^verbatim>\<open>[A-Za-z0-9]\<close>. \<open>is_word_char\<close> is \<^verbatim>\<open>\w\<close> of a
  Python 3 string pattern: the underscore and every code point that is alphanumeric in
  Unicode, which below U+0100 adds the letters and the numeric characters of Latin-1.
\<close>

definition is_id_char :: "char \<Rightarrow> bool" where
  "is_id_char c =
     (let n = (of_char c :: nat)
      in (65 \<le> n \<and> n \<le> 90) \<or> (97 \<le> n \<and> n \<le> 122) \<or> (48 \<le> n \<and> n \<le> 57))"

definition is_word_char :: "char \<Rightarrow> bool" where
  "is_word_char c =
     (let n = (of_char c :: nat)
      in is_id_char c \<or> n = 95
         \<or> n = 170 \<or> n = 181 \<or> n = 186
         \<or> n = 178 \<or> n = 179 \<or> n = 185 \<or> (188 \<le> n \<and> n \<le> 190)
         \<or> (192 \<le> n \<and> n \<le> 214) \<or> (216 \<le> n \<and> n \<le> 246) \<or> 248 \<le> n)"

definition strip_prefix :: "string \<Rightarrow> string \<Rightarrow> string option" where
  "strip_prefix p s = (if take (length p) s = p then Some (drop (length p) s) else None)"

text \<open>
  \<^verbatim>\<open>[A-Za-z0-9]+$\<close> at the start of \<open>r\<close>: a non-empty run of identifier characters
  reaching the end of the string or the line feed that ends the string (where \<^verbatim>\<open>$\<close>
  matches too).
\<close>

definition id_chars_to_end :: "string \<Rightarrow> bool" where
  "id_chars_to_end r =
     (let run = takeWhile is_id_char r; rest = dropWhile is_id_char r
      in run \<noteq> [] \<and> (rest = [] \<or> rest = [CHR 0x0A]))"

text \<open>\<^verbatim>\<open>re.match(r'^(spotify:playlist:)?[A-Za-z0-9]+$', s)\<close>: with the optional group, or without it.\<close>

definition match_id_pattern :: "string \<Rightarrow> bool" where
  "match_id_pattern s =
     ((case strip_prefix ''spotify:playlist:'' s of
         Some r \<Rightarrow> id_chars_to_end r
       | None \<Rightarrow> False)
      \<or> id_chars_to_end s)"

text \<open>
  \<^verbatim>\<open>re.match(r'^https://open\.spotify\.com/playlist/(\w+)', s)\<close>: the result is group 1,
  the longest non-empty run of word characters after the prefix.
\<close>

definition match_playlist_url_pattern :: "string \<Rightarrow> string option" where
  "match_playlist_url_pattern s =
     (case strip_prefix ''https://open.spotify.com/playlist/'' s of
        None \<Rightarrow> None
      | Some r \<Rightarrow>
          (let group1 = takeWhile is_word_char r
           in if group1 \<noteq> [] then Some group1 else None))"

definition extract_playlist_id :: "string \<Rightarrow> error + string" where
  "extract_playlist_id input_str =
     (if match_id_pattern input_str then Inr input_str
      else
        (case match_playlist_url_pattern input_str of
           Some group1 \<Rightarrow> Inr group1
         | None \<Rightarrow> Inl (ValueError (''Invalid playlist URL or playlist ID: '' @ input_str))))"

subsection \<open>The API client\<close>

text \<open>
  \<^verbatim>\<open>spotipy.Spotify\<close> is not part of the repository. The model takes the two calls the
  aggregation makes as functions from the request to the response or the exception
  raised, and keeps of a response the fields the code reads: of a page of
  \<^verbatim>\<open>playlist_tracks(playlist_id, offset, limit)\<close> the items (each with the identifiers of
  \<^verbatim>\<open>item['track']['artists']\<close>), \<^verbatim>\<open>next\<close> and \<^verbatim>\<open>total\<close>; of an artist object of
  \<^verbatim>\<open>artists(batch)\<close> its \<^verbatim>\<open>id\<close> and, when present, its \<^verbatim>\<open>genres\<close>.
\<close>

record track =
  track_artists :: "string list"

record page =
  page_items :: "track list"
  page_next :: "string option"
  page_total :: nat

record artist =
  artist_id :: string
  genres :: "string list option"

record spotapi =
  playlist_tracks :: "string \<Rightarrow> nat \<Rightarrow> nat \<Rightarrow> error + page"
  artists :: "string list \<Rightarrow> error + artist list"

text \<open>Python's truth value of \<^verbatim>\<open>results['next']\<close>: \<^verbatim>\<open>None\<close> and the empty string are false.\<close>

definition truthy :: "string option \<Rightarrow> bool" where
  "truthy v = (v \<noteq> None \<and> v \<noteq> Some [])"

subsection \<open>Counters\<close>

text \<open>
  A \<^verbatim>\<open>collections.Counter\<close> is a dictionary of counts: reading a missing key gives 0,
  and \<^verbatim>\<open>c[k] += n\<close> stores the sum under \<open>k\<close> (a new key goes to the end).
\<close>

type_synonym counter = "(string \<times> nat) list"

definition counter_get :: "counter \<Rightarrow> string \<Rightarrow> nat" where
  "counter_get c k = (case map_of c k of None \<Rightarrow> 0 | Some n \<Rightarrow> n)"

definition counter_add :: "string \<Rightarrow> nat \<Rightarrow> counter \<Rightarrow> counter" where
  "counter_add k n c = dict_set k (counter_get c k + n) c"

subsection \<open>get_artist_counts\<close>

text \<open>The two nested \<^verbatim>\<open>for\<close> loops over a page: one increment for each artist of each track.\<close>

definition count_track :: "track \<Rightarrow> counter \<Rightarrow> counter" where
  "count_track t c = fold (\<lambda>a. counter_add a 1) (track_artists t) c"

definition count_items :: "track list \<Rightarrow> counter \<Rightarrow> counter" where
  "count_items ts c = fold count_track ts c"

definition limit :: nat where
  "limit = 100"

text \<open>
  The \<^verbatim>\<open>while True\<close> loop. It ends when a page has a false \<^verbatim>\<open>next\<close> or the client
  raises, and need not end otherwise: the result is an option, \<open>None\<close> for a loop that
  runs forever. The list \<open>calls\<close> records the (offset, limit) of every listing call made.
\<close>

partial_function (option) artist_counts_loop ::
  "spotapi \<Rightarrow> string \<Rightarrow> nat \<Rightarrow> counter \<Rightarrow> (nat \<times> nat) list
     \<Rightarrow> ((error + counter) \<times> (nat \<times> nat) list) option" where
  "artist_counts_loop api playlist_id offset arts calls =
     (case playlist_tracks api playlist_id offset limit of
        Inl e \<Rightarrow> Some (Inl e, calls @ [(offset, limit)])
      | Inr results \<Rightarrow>
          (if \<not> truthy (page_next results)
           then Some (Inr (count_items (page_items results) arts), calls @ [(offset, limit)])
           else artist_counts_loop api playlist_id (offset + limit)
                  (count_items (page_items results) arts) (calls @ [(offset, limit)])))"

definition get_artist_counts ::
  "spotapi \<Rightarrow> string \<Rightarrow> ((error + counter) \<times> (nat \<times> nat) list) option" where
  "get_artist_counts api playlist_id = artist_counts_loop api playlist_id 0 [] []"

subsection \<open>get_genre_counts\<close>






subsection \<open>get_track_total and get_combined_genres\<close>



section \<open>Concrete inputs\<close>

text \<open>
  A file system with the cache directories and no file, a cache handler, and a token
  record as the token endpoint returns it. They are the inputs at which the properties
  below are run.
\<close>

definition demo_world :: world where
  "demo_world = \<lparr>dirs = {''../cache'', ''../cache/keys''}, files = Map.empty, now = 1000, entropy = 0\<rparr>"

definition demo_handler :: CustomCacheFileHandler where
  "demo_handler = \<lparr>cache_path = CUSTOM_CACHE_PATH, fernet_key = ''kkkk''\<rparr>"

definition demo_token :: dict where
  "demo_token =
     [(''access_token'', JStr ''BQDtoken''),
      (''token_type'', JStr ''Bearer''),
      (''expires_in'', JInt 3600),
      (''refresh_token'', JStr ''AQCrefresh''),
      (''scope'', JStr ''playlist-read-private'')]"

text \<open>The record \<^verbatim>\<open>save_token_to_cache\<close> writes for \<open>demo_token\<close>.\<close>

definition demo_token_on_disk :: dict where
  "demo_token_on_disk =
     [(''access_token'', JStr ''BQDtoken''),
      (''token_type'', JStr ''Bearer''),
      (''refresh_token'', JStr ''AQCrefresh''),
      (''scope'', JStr ''playlist-read-private''),
      (''expires_at'', JInt 3600)]"

text \<open>A world whose token cache was written 50 time units ago.\<close>

definition fresh_world :: world where
  "fresh_world =
     demo_world\<lparr>files := [CUSTOM_CACHE_PATH \<mapsto> \<lparr>content = Doc (JObj []), mtime = 950\<rparr>]\<rparr>"

text \<open>A token record whose lifetime field holds one of the two attribute names.\<close>

definition odd_token :: dict where
  "odd_token = [(''access_token'', JStr ''BQDtoken''), (''expires_in'', JStr ''access_token'')]"

text \<open>A token record without \<^verbatim>\<open>expires_in\<close>.\<close>

definition short_token :: dict where
  "short_token = [(''access_token'', JStr ''BQDtoken''), (''refresh_token'', JStr ''AQCrefresh'')]"

text \<open>A file system in which the directory of the key file does not exist.\<close>

definition bare_world :: world where
  "bare_world = \<lparr>dirs = {''../cache''}, files = Map.empty, now = 1000, entropy = 0\<rparr>"

text \<open>
  A token cache whose \<^verbatim>\<open>access_token\<close> was stored encrypted, as the specification
  describes the file.
\<close>

definition encrypted_token_on_disk :: dict where
  "encrypted_token_on_disk =
     [(''access_token'', JStr (encrypt demo_cipher ''kkkk'' 0 ''BQDtoken'')),
      (''expires_at'', JInt 3600)]"

definition encrypted_world :: world where
  "encrypted_world =
     demo_world\<lparr>files := [CUSTOM_CACHE_PATH \<mapsto>
        \<lparr>content = Doc (JObj encrypted_token_on_disk), mtime = 950\<rparr>]\<rparr>"

text \<open>A file system that holds a key file.\<close>

definition keyed_world :: world where
  "keyed_world = demo_world\<lparr>files := [key_file \<mapsto> \<lparr>content = Raw ''kkkk'', mtime = 900\<rparr>]\<rparr>"

text \<open>
  A playlist served page by page from a list of tracks, as the remote API does: a page
  holds the tracks from the offset up to the page size, and \<^verbatim>\<open>next\<close> is set exactly when
  tracks remain after the page. Artist details come from a table.
\<close>

definition paged_source :: "track list \<Rightarrow> string \<Rightarrow> nat \<Rightarrow> nat \<Rightarrow> error + page" where
  "paged_source ts playlist_id offset page_size =
     Inr \<lparr>page_items = take page_size (drop offset ts),
          page_next = (if offset + page_size < length ts then Some ''https://api.spotify.com/next'' else None),
          page_total = length ts\<rparr>"

definition fake_api :: "track list \<Rightarrow> (string \<Rightarrow> artist) \<Rightarrow> spotapi" where
  "fake_api ts info = \<lparr>playlist_tracks = paged_source ts, artists = (\<lambda>batch. Inr (map info batch))\<rparr>"


definition scenario_info :: "string \<Rightarrow> artist" where
  "scenario_info i =
     (if i = ''X'' then \<lparr>artist_id = ''X'', genres = Some [''pop'', ''rock'']\<rparr>
      else \<lparr>artist_id = i, genres = Some [''jazz'']\<rparr>)"


text \<open>
  A source answers for a playlist with the tracks \<open>ts\<close> when every listing call returns
  the tracks of its page and a \<^verbatim>\<open>next\<close> that is true exactly when more tracks follow.
\<close>

definition paginates :: "spotapi \<Rightarrow> string \<Rightarrow> track list \<Rightarrow> bool" where
  "paginates api playlist_id ts \<longleftrightarrow>
     (\<forall>offset page_size. \<exists>p. playlist_tracks api playlist_id offset page_size = Inr p
        \<and> page_items p = take page_size (drop offset ts)
        \<and> (truthy (page_next p) \<longleftrightarrow> offset + page_size < length ts))"

text \<open>The number of pages of a playlist of \<open>n\<close> tracks at page size 100, and at least one.\<close>

definition page_count :: "nat \<Rightarrow> nat" where
  "page_count n = max 1 ((n + 99) div 100)"

text \<open>A playlist of 250 tracks, three pages.\<close>

definition long_playlist :: "track list" where
  "long_playlist = replicate 250 \<lparr>track_artists = [''X'']\<rparr>"

section \<open>Properties of get_fernet_key\<close>

lemmas key_defs = get_fernet_key_def path_exists_def read_file_def write_file_def Fernet_def

lemma get_fernet_key_existing:
  "files w key_file = Some \<lparr>content = Raw b, mtime = t\<rparr> \<Longrightarrow> get_fernet_key C w = (Fernet C b, w)"
  by (simp add: get_fernet_key_def path_exists_def read_file_def)

lemma get_fernet_key_new:
  assumes "files w key_file = None" and "dirname key_file \<in> dirs w"
    and "valid_key C (generate_key C (entropy w))"
  shows "get_fernet_key C w =
     (Inr (generate_key C (entropy w)),
      w\<lparr>entropy := Suc (entropy w),
        files := (files w)(key_file \<mapsto>
          \<lparr>content = Raw (generate_key C (entropy w)), mtime = now w\<rparr>)\<rparr>)"
  using assms by (simp add: key_defs Let_def)

lemma get_fernet_key_no_directory:
  assumes "files w key_file = None" and "dirname key_file \<notin> dirs w"
  shows "get_fernet_key C w = (Inl (FileNotFoundError key_file), w\<lparr>entropy := Suc (entropy w)\<rparr>)"
  using assms by (simp add: key_defs Let_def)

lemma get_fernet_key_Inr:
  assumes "get_fernet_key C w = (Inr k, w1)"
  shows "valid_key C k \<and> (\<exists>t. files w1 key_file = Some \<lparr>content = Raw k, mtime = t\<rparr>)
     \<and> (\<forall>p. p \<noteq> key_file \<longrightarrow> files w1 p = files w p) \<and> dirs w1 = dirs w \<and> now w1 = now w"
proof (cases "files w key_file")
  case None
  with assms show ?thesis
    by (auto simp: key_defs Let_def split: if_splits)
next
  case (Some f)
  obtain c t where f: "f = \<lparr>content = c, mtime = t\<rparr>" by (cases f) simp
  with assms Some show ?thesis
    by (cases c) (auto simp: key_defs split: if_splits)
qed


lemma fernet_ok_demo: "fernet_ok demo_cipher"
  by (simp add: fernet_ok_def demo_cipher_def)


text \<open>
  Claim C9 as stated fails where the directory of the key file does not exist: the code
  opens the key file for writing and makes no directory, so the call raises
  \<^verbatim>\<open>FileNotFoundError\<close>, and afterwards there is neither the directory nor the file.
\<close>

theorem get_fernet_key_counterexample:
  "files bare_world key_file = None
   \<and> dirs bare_world = {''../cache''}
   \<and> fst (get_fernet_key demo_cipher bare_world) = Inl (FileNotFoundError ''../cache/keys/spotify.key'')
   \<and> dirs (snd (get_fernet_key demo_cipher bare_world)) = {''../cache''}
   \<and> files (snd (get_fernet_key demo_cipher bare_world)) key_file = None"
  by (simp add: key_defs bare_world_def key_file_def dirname_def demo_cipher_def Let_def)

text \<open>
  Claim C9, amended. \<^verbatim>\<open>get_fernet_key\<close> returns the key wrapped from the bytes of the
  key file whenever the file exists. When it does not exist and its directory does, a
  new key is generated from fresh randomness, written to the key file and returned.
  When the directory does not exist either, the call raises \<^verbatim>\<open>FileNotFoundError\<close> and
  leaves files and directories as they were. After a call that returned a key, every
  call in an environment with the same key file returns the same key and changes
  nothing, and that key decrypts what was encrypted with it.
\<close>

theorem get_fernet_key_behaviour:
  "(files w key_file = Some \<lparr>content = Raw b, mtime = t\<rparr> \<longrightarrow>
      get_fernet_key C w = (Fernet C b, w)) \<and>
   (fernet_ok C \<and> files w key_file = None \<and> dirname key_file \<in> dirs w \<longrightarrow>
      get_fernet_key C w =
        (Inr (generate_key C (entropy w)),
         w\<lparr>entropy := Suc (entropy w),
           files := (files w)(key_file \<mapsto>
             \<lparr>content = Raw (generate_key C (entropy w)), mtime = now w\<rparr>)\<rparr>)) \<and>
   (files w key_file = None \<and> dirname key_file \<notin> dirs w \<longrightarrow>
      fst (get_fernet_key C w) = Inl (FileNotFoundError key_file)
      \<and> files (snd (get_fernet_key C w)) = files w
      \<and> dirs (snd (get_fernet_key C w)) = dirs w) \<and>
   (fernet_ok C \<and> get_fernet_key C w = (Inr k, w1) \<and> files w2 key_file = files w1 key_file \<longrightarrow>
      get_fernet_key C w2 = (Inr k, w2) \<and> decrypt C k (encrypt C k n s) = Some s)"
proof (intro conjI impI)
  assume "files w key_file = Some \<lparr>content = Raw b, mtime = t\<rparr>"
  then show "get_fernet_key C w = (Fernet C b, w)"
    by (rule get_fernet_key_existing)
next
  assume a: "fernet_ok C \<and> files w key_file = None \<and> dirname key_file \<in> dirs w"
  then have "valid_key C (generate_key C (entropy w))"
    by (simp add: fernet_ok_def)
  with a show "get_fernet_key C w =
        (Inr (generate_key C (entropy w)),
         w\<lparr>entropy := Suc (entropy w),
           files := (files w)(key_file \<mapsto>
             \<lparr>content = Raw (generate_key C (entropy w)), mtime = now w\<rparr>)\<rparr>)"
    by (simp add: get_fernet_key_new)
next
  assume a: "files w key_file = None \<and> dirname key_file \<notin> dirs w"
  then have "get_fernet_key C w = (Inl (FileNotFoundError key_file), w\<lparr>entropy := Suc (entropy w)\<rparr>)"
    by (simp add: get_fernet_key_no_directory)
  then show "fst (get_fernet_key C w) = Inl (FileNotFoundError key_file)"
    "files (snd (get_fernet_key C w)) = files w"
    "dirs (snd (get_fernet_key C w)) = dirs w"
    by simp_all
next
  assume a: "fernet_ok C \<and> get_fernet_key C w = (Inr k, w1) \<and> files w2 key_file = files w1 key_file"
  then have "get_fernet_key C w = (Inr k, w1)" by simp
  from get_fernet_key_Inr [OF this] obtain t0 where
    valid: "valid_key C k" and f: "files w1 key_file = Some \<lparr>content = Raw k, mtime = t0\<rparr>"
    by blast
  from a f have "files w2 key_file = Some \<lparr>content = Raw k, mtime = t0\<rparr>" by simp
  then have "get_fernet_key C w2 = (Fernet C k, w2)"
    by (rule get_fernet_key_existing)
  with valid show "get_fernet_key C w2 = (Inr k, w2)"
    by (simp add: Fernet_def)
  from a valid show "decrypt C k (encrypt C k n s) = Some s"
    by (simp add: fernet_ok_def)
qed

theorem get_fernet_key_behaviour_witness:
  "files keyed_world key_file = Some \<lparr>content = Raw ''kkkk'', mtime = 900\<rparr>
   \<and> get_fernet_key demo_cipher keyed_world = (Inr ''kkkk'', keyed_world)
   \<and> fernet_ok demo_cipher \<and> files demo_world key_file = None
   \<and> dirname key_file \<in> dirs demo_world
   \<and> fst (get_fernet_key demo_cipher demo_world) = Inr (generate_key demo_cipher 0)
   \<and> files bare_world key_file = None \<and> dirname key_file \<notin> dirs bare_world
   \<and> fst (get_fernet_key demo_cipher bare_world) = Inl (FileNotFoundError key_file)
   \<and> files (keyed_world\<lparr>now := 2000\<rparr>) key_file = files keyed_world key_file
   \<and> get_fernet_key demo_cipher (keyed_world\<lparr>now := 2000\<rparr>) = (Inr ''kkkk'', keyed_world\<lparr>now := 2000\<rparr>)
   \<and> decrypt demo_cipher ''kkkk'' (encrypt demo_cipher ''kkkk'' 3 ''secret'') = Some ''secret''"
proof -
  have a: "files keyed_world key_file = Some \<lparr>content = Raw ''kkkk'', mtime = 900\<rparr>"
    by (simp add: keyed_world_def demo_world_def)
  have b: "Fernet demo_cipher ''kkkk'' = Inr ''kkkk''"
    by (simp add: Fernet_def demo_cipher_def)
  have c: "files demo_world key_file = None"
    by (simp add: demo_world_def)
  have d: "dirname key_file \<in> dirs demo_world"
    by (simp add: demo_world_def dirname_def key_file_def)
  have e: "files bare_world key_file = None"
    by (simp add: bare_world_def)
  have f: "dirname key_file \<notin> dirs bare_world"
    by (simp add: bare_world_def dirname_def key_file_def)
  have g: "files (keyed_world\<lparr>now := 2000\<rparr>) key_file = files keyed_world key_file"
    by simp
  have h: "entropy demo_world = 0"
    by (simp add: demo_world_def)
  note t1 = get_fernet_key_behaviour [of keyed_world "''kkkk''" 900 demo_cipher]
  note t2 = get_fernet_key_behaviour [of demo_world "''kkkk''" 900 demo_cipher]
  note t3 = get_fernet_key_behaviour [of bare_world "''kkkk''" 900 demo_cipher]
  from t1 a b have k: "get_fernet_key demo_cipher keyed_world = (Inr ''kkkk'', keyed_world)"
    by simp
  from t2 fernet_ok_demo c d h
  have n: "fst (get_fernet_key demo_cipher demo_world) = Inr (generate_key demo_cipher 0)"
    by simp
  from t3 e f have m: "fst (get_fernet_key demo_cipher bare_world) = Inl (FileNotFoundError key_file)"
    by simp
  from get_fernet_key_behaviour [of keyed_world "''kkkk''" 900 demo_cipher "''kkkk''" keyed_world
      "keyed_world\<lparr>now := 2000\<rparr>" 3 "''secret''"] fernet_ok_demo k g
  have i: "get_fernet_key demo_cipher (keyed_world\<lparr>now := 2000\<rparr>) = (Inr ''kkkk'', keyed_world\<lparr>now := 2000\<rparr>)
      \<and> decrypt demo_cipher ''kkkk'' (encrypt demo_cipher ''kkkk'' 3 ''secret'') = Some ''secret''"
    by simp
  from a k fernet_ok_demo c d n e f m g i show ?thesis
    by (intro conjI) simp_all
qed

section \<open>Properties of the token cache\<close>

subsection \<open>Dictionaries and the two comprehensions\<close>

lemma map_of_dict_set: "map_of (dict_set k v d) = (map_of d)(k \<mapsto> v)"
  by (induction d) (auto simp: fun_eq_iff)

lemma map_of_filter_key:
  "map_of (filter (\<lambda>kv. fst kv \<noteq> k) d) k' = (if k' = k then None else map_of d k')"
  by (induction d) auto

lemma snd_dict_set: "snd ` set (dict_set k v d) \<subseteq> insert v (snd ` set d)"
  by (induction d) auto

lemma py_encode_attr: "v \<in> set ATTRS_TO_ENCRYPT \<Longrightarrow> \<exists>s. py_encode v = Inr s \<and> v = JStr s"
  by (auto simp: ATTRS_TO_ENCRYPT_def py_encode_def)

lemma encrypt_token_info_total:
  "\<exists>d' n'. encrypt_token_info C fk n d = (Inr d', n') \<and> map fst d' = map fst d"
proof (induction d arbitrary: n)
  case Nil
  show ?case by simp
next
  case (Cons kv d)
  obtain k v where kv: "kv = (k, v)" by (cases kv)
  show ?case
  proof (cases "v \<in> set ATTRS_TO_ENCRYPT")
    case True
    then obtain s where s: "py_encode v = Inr s" using py_encode_attr by blast
    from Cons.IH [of "Suc n"] obtain d' n' where
      "encrypt_token_info C fk (Suc n) d = (Inr d', n')" "map fst d' = map fst d" by blast
    with True s show ?thesis by (simp add: kv)
  next
    case False
    from Cons.IH [of n] obtain d' n' where
      "encrypt_token_info C fk n d = (Inr d', n')" "map fst d' = map fst d" by blast
    with False show ?thesis by (simp add: kv)
  qed
qed

lemma encrypt_token_info_clear:
  "\<forall>kv\<in>set d. snd kv \<notin> set ATTRS_TO_ENCRYPT \<Longrightarrow> encrypt_token_info C fk n d = (Inr d, n)"
  by (induction d arbitrary: n) auto

lemma decrypt_token_info_clear:
  "\<forall>kv\<in>set d. snd kv \<notin> set ATTRS_TO_ENCRYPT \<Longrightarrow> decrypt_token_info C fk d = Inr d"
  by (induction d) auto


lemmas cache_defs = save_token_to_cache_def get_cached_token_def is_cache_fresh_def path_exists_def
  write_file_def read_file_def json_load_def py_items_def dict_pop_def dirname_def
  CUSTOM_CACHE_PATH_def ATTRS_TO_ENCRYPT_def REFRESH_INTERVAL_def py_encode_def

lemmas demo_defs = demo_world_def demo_handler_def demo_token_def demo_token_on_disk_def
  fresh_world_def odd_token_def short_token_def bare_world_def
  encrypted_token_on_disk_def encrypted_world_def


subsection \<open>The freshness gate\<close>



lemma save_token_stale:
  assumes "\<not> is_cache_fresh h w"
  shows "\<exists>enc n. encrypt_token_info C (fernet_key h) (entropy w) token_info = (Inr enc, n)
           \<and> map fst enc = map fst token_info
           \<and> save_token_to_cache C h token_info w =
               (case dict_pop ''expires_in'' enc of
                  Inl e \<Rightarrow> (Inl e, w\<lparr>entropy := n\<rparr>)
                | Inr (v, popped) \<Rightarrow>
                    write_file (w\<lparr>entropy := n\<rparr>) (cache_path h)
                      (Doc (JObj (dict_set ''expires_at'' v popped))))"
proof -
  obtain enc n where e: "encrypt_token_info C (fernet_key h) (entropy w) token_info = (Inr enc, n)"
    and k: "map fst enc = map fst token_info"
    using encrypt_token_info_total by blast
  with assms show ?thesis
    by (simp add: save_token_to_cache_def)
qed





subsection \<open>A record without expires_in\<close>

lemma dict_pop_missing:
  "k \<notin> fst ` set d \<Longrightarrow> dict_pop k d = Inl (KeyError k)"
proof -
  assume "k \<notin> fst ` set d"
  then have "map_of d k = None" by (simp add: map_of_eq_None_iff)
  then show ?thesis by (simp add: dict_pop_def)
qed

lemma dict_pop_present:
  "map_of d k = Some v \<Longrightarrow> dict_pop k d = Inr (v, filter (\<lambda>kv. fst kv \<noteq> k) d)"
  by (simp add: dict_pop_def)

text \<open>
  Claim C10. For a token record without an \<^verbatim>\<open>expires_in\<close> field and a cache that is
  not fresh, \<^verbatim>\<open>save_token_to_cache\<close> raises \<^verbatim>\<open>KeyError\<close> for that key and leaves
  the files and directories as they were: the pop comes before the file is opened.
\<close>

theorem save_token_without_expires_in:
  "''expires_in'' \<notin> fst ` set token_info \<and> \<not> is_cache_fresh h w \<longrightarrow>
     fst (save_token_to_cache C h token_info w) = Inl (KeyError ''expires_in'')
     \<and> files (snd (save_token_to_cache C h token_info w)) = files w
     \<and> dirs (snd (save_token_to_cache C h token_info w)) = dirs w"
proof
  assume a: "''expires_in'' \<notin> fst ` set token_info \<and> \<not> is_cache_fresh h w"
  then have stale: "\<not> is_cache_fresh h w" ..
  from save_token_stale [OF stale, of C token_info] obtain enc n where
    keys: "map fst enc = map fst token_info"
    and s: "save_token_to_cache C h token_info w =
               (case dict_pop ''expires_in'' enc of
                  Inl e \<Rightarrow> (Inl e, w\<lparr>entropy := n\<rparr>)
                | Inr (v, popped) \<Rightarrow>
                    write_file (w\<lparr>entropy := n\<rparr>) (cache_path h)
                      (Doc (JObj (dict_set ''expires_at'' v popped))))"
    by blast
  from keys have "fst ` set enc = fst ` set token_info"
    by (metis set_map)
  with a have "''expires_in'' \<notin> fst ` set enc" by simp
  then have "dict_pop ''expires_in'' enc = Inl (KeyError ''expires_in'')"
    by (rule dict_pop_missing)
  with s have "save_token_to_cache C h token_info w = (Inl (KeyError ''expires_in''), w\<lparr>entropy := n\<rparr>)"
    by simp
  then show "fst (save_token_to_cache C h token_info w) = Inl (KeyError ''expires_in'')
     \<and> files (snd (save_token_to_cache C h token_info w)) = files w
     \<and> dirs (snd (save_token_to_cache C h token_info w)) = dirs w"
    by simp
qed

theorem save_token_without_expires_in_witness:
  "''expires_in'' \<notin> fst ` set short_token \<and> \<not> is_cache_fresh demo_handler demo_world
   \<and> fst (save_token_to_cache demo_cipher demo_handler short_token demo_world)
       = Inl (KeyError ''expires_in'')
   \<and> files (snd (save_token_to_cache demo_cipher demo_handler short_token demo_world))
       = files demo_world"
proof -
  have a: "''expires_in'' \<notin> fst ` set short_token"
    by (simp add: short_token_def)
  have b: "\<not> is_cache_fresh demo_handler demo_world"
    by (simp add: demo_defs is_cache_fresh_def path_exists_def)
  show ?thesis
    using a b save_token_without_expires_in [of short_token demo_handler demo_world demo_cipher]
    by simp
qed


subsection \<open>What is written and what is read back\<close>

lemma save_token_clear:
  assumes stale: "\<not> is_cache_fresh h w"
    and clear: "\<forall>kv\<in>set token_info. snd kv \<notin> set ATTRS_TO_ENCRYPT"
    and v: "map_of token_info ''expires_in'' = Some v"
    and dir: "dirname (cache_path h) \<in> dirs w"
  shows "save_token_to_cache C h token_info w =
     (Inr (), w\<lparr>files := (files w)(cache_path h \<mapsto>
        \<lparr>content = Doc (JObj (dict_set ''expires_at'' v
                       (filter (\<lambda>kv. fst kv \<noteq> ''expires_in'') token_info))),
         mtime = now w\<rparr>)\<rparr>)"
proof -
  have "encrypt_token_info C (fernet_key h) (entropy w) token_info = (Inr token_info, entropy w)"
    using clear by (rule encrypt_token_info_clear)
  moreover have "dict_pop ''expires_in'' token_info
      = Inr (v, filter (\<lambda>kv. fst kv \<noteq> ''expires_in'') token_info)"
    using v by (rule dict_pop_present)
  ultimately show ?thesis
    using stale dir by (simp add: save_token_to_cache_def write_file_def)
qed

lemma get_cached_token_clear:
  assumes f: "files w (cache_path h) = Some \<lparr>content = Doc (JObj d), mtime = t\<rparr>"
    and clear: "\<forall>kv\<in>set d. snd kv \<notin> set ATTRS_TO_ENCRYPT"
  shows "get_cached_token C h w = Inr (Some d)"
proof -
  have "decrypt_token_info C (fernet_key h) d = Inr d"
    using clear by (rule decrypt_token_info_clear)
  with f show ?thesis
    by (simp add: get_cached_token_def path_exists_def read_file_def json_load_def py_items_def)
qed

text \<open>
  Claim C1, at the token record \<open>demo_token\<close>. The specification has the values of
  the fields \<^verbatim>\<open>access_token\<close> and \<^verbatim>\<open>refresh_token\<close> stored encrypted and decrypted
  on reading. The comprehensions test the value of each item against the two attribute
  names, not its key: whatever the cipher, the record written for \<open>demo_token\<close> holds
  both secrets as they came in, and a cache file whose \<^verbatim>\<open>access_token\<close> is a cipher
  text is read back with the cipher text in place, although the key decrypts it.
\<close>


theorem save_token_leaves_access_token_clear:
  "save_token_to_cache C demo_handler demo_token demo_world =
     (Inr (), demo_world\<lparr>files := [CUSTOM_CACHE_PATH \<mapsto>
        \<lparr>content = Doc (JObj demo_token_on_disk), mtime = 1000\<rparr>]\<rparr>)
   \<and> map_of demo_token ''access_token'' = Some (JStr ''BQDtoken'')
   \<and> map_of demo_token_on_disk ''access_token'' = Some (JStr ''BQDtoken'')
   \<and> map_of demo_token ''refresh_token'' = Some (JStr ''AQCrefresh'')
   \<and> map_of demo_token_on_disk ''refresh_token'' = Some (JStr ''AQCrefresh'')
   \<and> get_cached_token demo_cipher demo_handler encrypted_world = Inr (Some encrypted_token_on_disk)
   \<and> map_of encrypted_token_on_disk ''access_token'' = Some (JStr ''kkkk#BQDtoken'')
   \<and> decrypt demo_cipher ''kkkk'' ''kkkk#BQDtoken'' = Some ''BQDtoken''"
proof -
  have a: "save_token_to_cache C demo_handler demo_token demo_world =
     (Inr (), demo_world\<lparr>files := [CUSTOM_CACHE_PATH \<mapsto>
        \<lparr>content = Doc (JObj demo_token_on_disk), mtime = 1000\<rparr>]\<rparr>)"
    by (simp add: cache_defs demo_defs)
  have b: "get_cached_token demo_cipher demo_handler encrypted_world = Inr (Some encrypted_token_on_disk)"
    by (simp add: cache_defs demo_defs demo_cipher_def)
  have c: "map_of encrypted_token_on_disk ''access_token'' = Some (JStr ''kkkk#BQDtoken'')"
    by (simp add: demo_defs demo_cipher_def)
  have d: "decrypt demo_cipher ''kkkk'' ''kkkk#BQDtoken'' = Some ''BQDtoken''"
    by (simp add: demo_cipher_def)
  from a b c d show ?thesis
    by (simp add: demo_token_def demo_token_on_disk_def)
qed




lemma encrypt_token_info_keeps_clear:
  "encrypt_token_info C fk n d = (Inr enc, n') \<Longrightarrow> map_of d k = Some v
     \<Longrightarrow> v \<notin> set ATTRS_TO_ENCRYPT \<Longrightarrow> map_of enc k = Some v"
proof (induction d arbitrary: n enc n')
  case Nil
  then show ?case by simp
next
  case (Cons kv d)
  obtain k0 v0 where kv: "kv = (k0, v0)" by (cases kv)
  obtain r m where rec: "encrypt_token_info C fk (if v0 \<in> set ATTRS_TO_ENCRYPT then Suc n else n) d = (r, m)"
    by (cases "encrypt_token_info C fk (if v0 \<in> set ATTRS_TO_ENCRYPT then Suc n else n) d")
  show ?case
  proof (cases "k0 = k")
    case True
    with Cons.prems kv have v0: "v0 = v" by simp
    with Cons.prems(3) have "v0 \<notin> set ATTRS_TO_ENCRYPT" by simp
    with Cons.prems(1) kv rec True v0 show ?thesis
      by (auto split: sum.splits prod.splits)
  next
    case False
    with Cons.prems(2) kv have look: "map_of d k = Some v" by simp
    from Cons.prems(1) kv rec obtain d' where r: "r = Inr d'" and enc: "\<exists>x. enc = (k0, x) # d'"
      by (cases r; cases "v0 \<in> set ATTRS_TO_ENCRYPT")
         (auto split: sum.splits prod.splits)
    from Cons.IH [OF rec [unfolded r] look Cons.prems(3)] have "map_of d' k = Some v" .
    with enc False show ?thesis by auto
  qed
qed

lemma save_token_renames_expires_in:
  assumes stale: "\<not> is_cache_fresh h w"
    and v: "map_of token_info ''expires_in'' = Some v"
    and clear: "v \<notin> set ATTRS_TO_ENCRYPT"
    and dir: "dirname (cache_path h) \<in> dirs w"
  shows "\<exists>d w'. save_token_to_cache C h token_info w = (Inr (), w')
           \<and> files w' (cache_path h) = Some \<lparr>content = Doc (JObj d), mtime = now w\<rparr>
           \<and> map_of d ''expires_at'' = Some v \<and> map_of d ''expires_in'' = None"
proof -
  from save_token_stale [OF stale, of C token_info] obtain enc n where
    e: "encrypt_token_info C (fernet_key h) (entropy w) token_info = (Inr enc, n)"
    and s: "save_token_to_cache C h token_info w =
               (case dict_pop ''expires_in'' enc of
                  Inl e \<Rightarrow> (Inl e, w\<lparr>entropy := n\<rparr>)
                | Inr (v, popped) \<Rightarrow>
                    write_file (w\<lparr>entropy := n\<rparr>) (cache_path h)
                      (Doc (JObj (dict_set ''expires_at'' v popped))))"
    by blast
  have "map_of enc ''expires_in'' = Some v"
    using e v clear by (rule encrypt_token_info_keeps_clear)
  then have pop: "dict_pop ''expires_in'' enc = Inr (v, filter (\<lambda>kv. fst kv \<noteq> ''expires_in'') enc)"
    by (rule dict_pop_present)
  define d where "d = dict_set ''expires_at'' v (filter (\<lambda>kv. fst kv \<noteq> ''expires_in'') enc)"
  have "save_token_to_cache C h token_info w =
      (Inr (), w\<lparr>entropy := n, files := (files w)(cache_path h \<mapsto> \<lparr>content = Doc (JObj d), mtime = now w\<rparr>)\<rparr>)"
    using s pop dir by (simp add: write_file_def d_def)
  moreover have "map_of d ''expires_at'' = Some v" "map_of d ''expires_in'' = None"
    by (simp_all add: d_def map_of_dict_set map_of_filter_key)
  ultimately show ?thesis by simp
qed

text \<open>
  Claim C4 as stated fails at \<open>demo_token\<close>: the record read back after a save has no
  \<^verbatim>\<open>expires_in\<close> field and has an \<^verbatim>\<open>expires_at\<close> field the saved record lacks, so not
  every other field is unchanged in name and value.
\<close>

lemma save_demo_token:
  "save_token_to_cache C demo_handler demo_token demo_world =
     (Inr (), demo_world\<lparr>files := [CUSTOM_CACHE_PATH \<mapsto>
        \<lparr>content = Doc (JObj demo_token_on_disk), mtime = 1000\<rparr>]\<rparr>)"
  by (simp add: cache_defs demo_defs)

theorem token_round_trip_counterexample:
  "fst (save_token_to_cache demo_cipher demo_handler demo_token demo_world) = Inr ()
   \<and> get_cached_token demo_cipher demo_handler
        (snd (save_token_to_cache demo_cipher demo_handler demo_token demo_world))
       = Inr (Some demo_token_on_disk)
   \<and> map_of demo_token ''expires_in'' = Some (JInt 3600)
   \<and> map_of demo_token_on_disk ''expires_in'' = None
   \<and> map_of demo_token ''expires_at'' = None
   \<and> map_of demo_token_on_disk ''expires_at'' = Some (JInt 3600)"
proof -
  have "get_cached_token demo_cipher demo_handler
          (demo_world\<lparr>files := [CUSTOM_CACHE_PATH \<mapsto>
              \<lparr>content = Doc (JObj demo_token_on_disk), mtime = 1000\<rparr>]\<rparr>)
        = Inr (Some demo_token_on_disk)"
    by (simp add: cache_defs demo_defs)
  then show ?thesis
    by (simp add: save_demo_token) (simp add: demo_token_def demo_token_on_disk_def)
qed

text \<open>
  Claim C4, amended. For a token record with an \<^verbatim>\<open>expires_in\<close> field and no value
  equal to one of the two attribute names, a save on a cache that is not fresh (in an
  existing cache directory) followed by \<^verbatim>\<open>get_cached_token\<close> gives a record whose
  \<^verbatim>\<open>access_token\<close> and \<^verbatim>\<open>refresh_token\<close> are the originals, whose \<^verbatim>\<open>expires_at\<close>
  holds the original \<^verbatim>\<open>expires_in\<close> value, which has no \<^verbatim>\<open>expires_in\<close>, and whose
  every other field is unchanged in name and value.
\<close>

theorem token_round_trip:
  assumes v: "map_of token_info ''expires_in'' = Some v"
    and clear: "\<forall>kv\<in>set token_info. snd kv \<notin> set ATTRS_TO_ENCRYPT"
    and stale: "\<not> is_cache_fresh h w"
    and dir: "dirname (cache_path h) \<in> dirs w"
  shows "\<exists>w' d. save_token_to_cache C h token_info w = (Inr (), w')
           \<and> get_cached_token C h w' = Inr (Some d)
           \<and> map_of d ''access_token'' = map_of token_info ''access_token''
           \<and> map_of d ''refresh_token'' = map_of token_info ''refresh_token''
           \<and> map_of d ''expires_at'' = Some v
           \<and> map_of d ''expires_in'' = None
           \<and> (\<forall>k. k \<noteq> ''expires_in'' \<and> k \<noteq> ''expires_at'' \<longrightarrow> map_of d k = map_of token_info k)"
proof -
  define d where "d = dict_set ''expires_at'' v (filter (\<lambda>kv. fst kv \<noteq> ''expires_in'') token_info)"
  define w' where "w' = w\<lparr>files := (files w)(cache_path h \<mapsto> \<lparr>content = Doc (JObj d), mtime = now w\<rparr>)\<rparr>"
  have save: "save_token_to_cache C h token_info w = (Inr (), w')"
    unfolding w'_def d_def by (rule save_token_clear [OF stale clear v dir])
  have vclear: "v \<notin> set ATTRS_TO_ENCRYPT"
    using clear map_of_SomeD [OF v] by force
  have "snd ` set d \<subseteq> insert v (snd ` set (filter (\<lambda>kv. fst kv \<noteq> ''expires_in'') token_info))"
    unfolding d_def by (rule snd_dict_set)
  then have "snd ` set d \<subseteq> insert v (snd ` set token_info)"
    by auto
  moreover have "snd ` set token_info \<inter> set ATTRS_TO_ENCRYPT = {}"
    using clear by auto
  ultimately have "snd ` set d \<inter> set ATTRS_TO_ENCRYPT = {}"
    using vclear by blast
  then have dclear: "\<forall>kv\<in>set d. snd kv \<notin> set ATTRS_TO_ENCRYPT"
    by (meson disjoint_iff imageI)
  have written: "files w' (cache_path h) = Some \<lparr>content = Doc (JObj d), mtime = now w\<rparr>"
    by (simp add: w'_def)
  have get: "get_cached_token C h w' = Inr (Some d)"
    using written dclear by (rule get_cached_token_clear)
  have m: "map_of d k = (if k = ''expires_at'' then Some v
                         else if k = ''expires_in'' then None else map_of token_info k)" for k
    by (simp add: d_def map_of_dict_set map_of_filter_key)
  have "map_of d ''access_token'' = map_of token_info ''access_token''"
    "map_of d ''refresh_token'' = map_of token_info ''refresh_token''"
    "map_of d ''expires_at'' = Some v"
    "map_of d ''expires_in'' = None"
    "\<forall>k. k \<noteq> ''expires_in'' \<and> k \<noteq> ''expires_at'' \<longrightarrow> map_of d k = map_of token_info k"
    by (simp_all add: m)
  with save get show ?thesis by blast
qed



theorem token_round_trip_witness:
  "map_of demo_token ''expires_in'' = Some (JInt 3600)
   \<and> JStr ''access_token'' \<notin> snd ` set demo_token
   \<and> JStr ''refresh_token'' \<notin> snd ` set demo_token
   \<and> \<not> is_cache_fresh demo_handler demo_world
   \<and> dirname (cache_path demo_handler) \<in> dirs demo_world
   \<and> (\<exists>w' d. save_token_to_cache demo_cipher demo_handler demo_token demo_world = (Inr (), w')
          \<and> get_cached_token demo_cipher demo_handler w' = Inr (Some d)
          \<and> map_of d ''access_token'' = Some (JStr ''BQDtoken'')
          \<and> map_of d ''refresh_token'' = Some (JStr ''AQCrefresh'')
          \<and> map_of d ''scope'' = Some (JStr ''playlist-read-private'')
          \<and> map_of d ''expires_at'' = Some (JInt 3600)
          \<and> map_of d ''expires_in'' = None)"
proof -
  have v: "map_of demo_token ''expires_in'' = Some (JInt 3600)"
    by (simp add: demo_token_def)
  have clear: "\<forall>kv\<in>set demo_token. snd kv \<notin> set ATTRS_TO_ENCRYPT"
    by (simp add: demo_token_def ATTRS_TO_ENCRYPT_def)
  have a: "JStr ''access_token'' \<notin> snd ` set demo_token"
    and r: "JStr ''refresh_token'' \<notin> snd ` set demo_token"
    by (simp_all add: demo_token_def)
  have stale: "\<not> is_cache_fresh demo_handler demo_world"
    by (simp add: demo_defs is_cache_fresh_def path_exists_def)
  have dir: "dirname (cache_path demo_handler) \<in> dirs demo_world"
    by (simp add: demo_defs dirname_def CUSTOM_CACHE_PATH_def)
  from token_round_trip [OF v clear stale dir, of demo_cipher]
  obtain w' d where
    "save_token_to_cache demo_cipher demo_handler demo_token demo_world = (Inr (), w')"
    "get_cached_token demo_cipher demo_handler w' = Inr (Some d)"
    "map_of d ''access_token'' = map_of demo_token ''access_token''"
    "map_of d ''refresh_token'' = map_of demo_token ''refresh_token''"
    "map_of d ''expires_at'' = Some (JInt 3600)"
    "map_of d ''expires_in'' = None"
    "map_of d ''scope'' = map_of demo_token ''scope''"
    by force
  then have "save_token_to_cache demo_cipher demo_handler demo_token demo_world = (Inr (), w')
          \<and> get_cached_token demo_cipher demo_handler w' = Inr (Some d)
          \<and> map_of d ''access_token'' = Some (JStr ''BQDtoken'')
          \<and> map_of d ''refresh_token'' = Some (JStr ''AQCrefresh'')
          \<and> map_of d ''scope'' = Some (JStr ''playlist-read-private'')
          \<and> map_of d ''expires_at'' = Some (JInt 3600)
          \<and> map_of d ''expires_in'' = None"
    by (simp add: demo_token_def)
  then have "\<exists>w' d. save_token_to_cache demo_cipher demo_handler demo_token demo_world = (Inr (), w')
          \<and> get_cached_token demo_cipher demo_handler w' = Inr (Some d)
          \<and> map_of d ''access_token'' = Some (JStr ''BQDtoken'')
          \<and> map_of d ''refresh_token'' = Some (JStr ''AQCrefresh'')
          \<and> map_of d ''scope'' = Some (JStr ''playlist-read-private'')
          \<and> map_of d ''expires_at'' = Some (JInt 3600)
          \<and> map_of d ''expires_in'' = None"
    by (intro exI)
  with v a r stale dir show ?thesis by (intro conjI)
qed

section \<open>Properties of the credential store\<close>

lemma encrypt_then_decrypt_credentials:
  assumes ok: "fernet_ok C" and valid: "valid_key C k"
  shows "\<forall>kv\<in>set d. \<exists>s. snd kv = JStr s \<Longrightarrow>
     \<exists>enc n'. encrypt_credentials C k n d = (Inr enc, n') \<and> decrypt_credentials C k enc = Inr d"
proof (induction d arbitrary: n)
  case Nil
  show ?case by simp
next
  case (Cons kv d)
  obtain key s where kv: "kv = (key, JStr s)"
    using Cons.prems by (cases kv) auto
  from Cons.prems have "\<forall>kv\<in>set d. \<exists>s. snd kv = JStr s" by simp
  from Cons.IH [OF this, of "Suc n"] obtain enc n' where
    e: "encrypt_credentials C k (Suc n) d = (Inr enc, n')" and
    d: "decrypt_credentials C k enc = Inr d" by blast
  have r: "decrypt C k (encrypt C k n s) = Some s"
    using ok valid by (simp add: fernet_ok_def)
  have "encrypt_credentials C k n (kv # d) = (Inr ((key, JStr (encrypt C k n s)) # enc), n')"
    by (simp add: kv py_encode_def e)
  moreover have "decrypt_credentials C k ((key, JStr (encrypt C k n s)) # enc) = Inr (kv # d)"
    by (simp add: kv py_encode_def r d)
  ultimately show ?case by blast
qed

lemma credentials_path_not_key_file: "credentials_path \<noteq> key_file"
  by (simp add: credentials_path_def key_file_def)

lemma save_then_retrieve_credentials:
  assumes ok: "fernet_ok C" and valid: "valid_key C (cred_fernet_key h)"
    and key: "files w key_file = Some \<lparr>content = Raw (cred_fernet_key h), mtime = t\<rparr>"
    and dir: "dirname credentials_path \<in> dirs w"
    and ne: "d \<noteq> []"
    and strs: "\<forall>kv\<in>set d. \<exists>s. snd kv = JStr s"
  shows "\<exists>w2. save_credentials_to_file C h (Some d) w = (Inr (), w2)
           \<and> retrieve_credentials C h w2 = (Inr (Some d), h\<lparr>credentials := Some d\<rparr>, w2)"
proof -
  from encrypt_then_decrypt_credentials [OF ok valid strs, of "entropy w"] obtain enc n' where
    e: "encrypt_credentials C (cred_fernet_key h) (entropy w) d = (Inr enc, n')" and
    dec: "decrypt_credentials C (cred_fernet_key h) enc = Inr d" by blast
  define w2 where "w2 = w\<lparr>entropy := n',
      files := (files w)(credentials_path \<mapsto> \<lparr>content = Doc (JObj enc), mtime = now w\<rparr>)\<rparr>"
  have save: "save_credentials_to_file C h (Some d) w = (Inr (), w2)"
    using ne e dir by (simp add: save_credentials_to_file_def write_file_def w2_def)
  have "files w2 key_file = Some \<lparr>content = Raw (cred_fernet_key h), mtime = t\<rparr>"
    using key credentials_path_not_key_file by (simp add: w2_def)
  then have "get_fernet_key C w2 = (Fernet C (cred_fernet_key h), w2)"
    by (rule get_fernet_key_existing)
  with valid have k: "get_fernet_key C w2 = (Inr (cred_fernet_key h), w2)"
    by (simp add: Fernet_def)
  have f: "files w2 credentials_path = Some \<lparr>content = Doc (JObj enc), mtime = now w\<rparr>"
    by (simp add: w2_def)
  have "retrieve_credentials C h w2 = (Inr (Some d), h\<lparr>credentials := Some d\<rparr>, w2)"
    by (simp add: retrieve_credentials_def k read_file_def f json_load_def py_items_def dec)
  with save show ?thesis by blast
qed

lemma CredentialsFileHandler_init_key:
  assumes "CredentialsFileHandler_init C w0 = (Inr h, w1)"
  shows "valid_key C (cred_fernet_key h)
     \<and> (\<exists>t. files w1 key_file = Some \<lparr>content = Raw (cred_fernet_key h), mtime = t\<rparr>)"
proof -
  from assms obtain fk wa where g: "get_fernet_key C w0 = (Inr fk, wa)"
    by (cases "get_fernet_key C w0"; cases "fst (get_fernet_key C w0)")
       (auto simp: CredentialsFileHandler_init_def)
  from get_fernet_key_Inr [OF g] obtain t where
    valid: "valid_key C fk" and f: "files wa key_file = Some \<lparr>content = Raw fk, mtime = t\<rparr>"
    by blast
  from f have "get_fernet_key C wa = (Fernet C fk, wa)"
    by (rule get_fernet_key_existing)
  with valid have again: "get_fernet_key C wa = (Inr fk, wa)"
    by (simp add: Fernet_def)
  from assms g again have "cred_fernet_key h = fk \<and> w1 = wa"
    by (auto simp: CredentialsFileHandler_init_def retrieve_credentials_def
             split: sum.splits)
  with valid f show ?thesis by blast
qed

text \<open>
  Claim C5. For a handler built by \<^verbatim>\<open>__init__\<close> and a credentials record whose
  \<^verbatim>\<open>client_id\<close> and \<^verbatim>\<open>client_secret\<close> are non-empty strings,
  \<^verbatim>\<open>save_credentials_to_file\<close> followed by \<^verbatim>\<open>retrieve_credentials\<close> returns the record
  that was saved, and the handler holds it. The encryption library is assumed to decrypt
  what it encrypted, and the cache directory to exist.
\<close>


theorem credentials_round_trip:
  assumes ok: "fernet_ok C"
    and init: "CredentialsFileHandler_init C w0 = (Inr h, w1)"
    and dir: "dirname credentials_path \<in> dirs w1"
    and id: "client_id \<noteq> []" and secret: "client_secret \<noteq> []"
  shows "\<exists>w2 h'.
     save_credentials_to_file C h
         (Some [(''client_id'', JStr client_id), (''client_secret'', JStr client_secret)]) w1
       = (Inr (), w2)
     \<and> retrieve_credentials C h w2
       = (Inr (Some [(''client_id'', JStr client_id), (''client_secret'', JStr client_secret)]), h', w2)
     \<and> credentials h'
       = Some [(''client_id'', JStr client_id), (''client_secret'', JStr client_secret)]"
proof -
  let ?d = "[(''client_id'', JStr client_id), (''client_secret'', JStr client_secret)]"
  from CredentialsFileHandler_init_key [OF init] obtain t where
    valid: "valid_key C (cred_fernet_key h)"
    and key: "files w1 key_file = Some \<lparr>content = Raw (cred_fernet_key h), mtime = t\<rparr>"
    by blast
  have ne: "?d \<noteq> []" by simp
  have strs: "\<forall>kv\<in>set ?d. \<exists>s. snd kv = JStr s" by simp
  from save_then_retrieve_credentials [OF ok valid key dir ne strs] obtain w2 where
    "save_credentials_to_file C h (Some ?d) w1 = (Inr (), w2)"
    "retrieve_credentials C h w2 = (Inr (Some ?d), h\<lparr>credentials := Some ?d\<rparr>, w2)"
    by blast
  moreover have "credentials (h\<lparr>credentials := Some ?d\<rparr>) = Some ?d" by simp
  ultimately show ?thesis by blast
qed

theorem credentials_round_trip_witness:
  "fernet_ok demo_cipher
   \<and> CredentialsFileHandler_init demo_cipher keyed_world
       = (Inr \<lparr>cred_fernet_key = ''kkkk'', credentials = None\<rparr>, keyed_world)
   \<and> dirname credentials_path \<in> dirs keyed_world
   \<and> (\<exists>w2 h'.
        save_credentials_to_file demo_cipher \<lparr>cred_fernet_key = ''kkkk'', credentials = None\<rparr>
            (Some [(''client_id'', JStr ''id123''), (''client_secret'', JStr ''s3cret'')]) keyed_world
          = (Inr (), w2)
        \<and> retrieve_credentials demo_cipher \<lparr>cred_fernet_key = ''kkkk'', credentials = None\<rparr> w2
          = (Inr (Some [(''client_id'', JStr ''id123''), (''client_secret'', JStr ''s3cret'')]), h', w2)
        \<and> credentials h'
          = Some [(''client_id'', JStr ''id123''), (''client_secret'', JStr ''s3cret'')])"
proof -
  have key: "files keyed_world key_file = Some \<lparr>content = Raw ''kkkk'', mtime = 900\<rparr>"
    by (simp add: keyed_world_def demo_world_def)
  have nocred: "files keyed_world credentials_path = None"
    using credentials_path_not_key_file by (simp add: keyed_world_def demo_world_def)
  have k: "get_fernet_key demo_cipher keyed_world = (Inr ''kkkk'', keyed_world)"
    using get_fernet_key_existing [OF key, of demo_cipher]
    by (simp add: Fernet_def demo_cipher_def)
  have init: "CredentialsFileHandler_init demo_cipher keyed_world
       = (Inr \<lparr>cred_fernet_key = ''kkkk'', credentials = None\<rparr>, keyed_world)"
    by (simp add: CredentialsFileHandler_init_def retrieve_credentials_def k read_file_def nocred)
  have dir: "dirname credentials_path \<in> dirs keyed_world"
    by (simp add: keyed_world_def demo_world_def dirname_def credentials_path_def)
  have a: "''id123'' \<noteq> []" and b: "''s3cret'' \<noteq> []" by simp_all
  from fernet_ok_demo init dir credentials_round_trip [OF fernet_ok_demo init dir a b]
  show ?thesis by (intro conjI)
qed
section \<open>Properties of extract_playlist_id\<close>

lemmas playlist_id_defs =
  extract_playlist_id_def match_id_pattern_def match_playlist_url_pattern_def
  strip_prefix_def id_chars_to_end_def is_id_char_def is_word_char_def

lemma not_id_char_newline: "\<not> is_id_char (CHR 0x0A)"
  by (simp add: is_id_char_def)

lemma id_chars_to_end_iff:
  "id_chars_to_end r \<longleftrightarrow>
     (\<exists>body tail. r = body @ tail \<and> body \<noteq> [] \<and> (\<forall>c\<in>set body. is_id_char c)
        \<and> (tail = [] \<or> tail = [CHR 0x0A]))"
proof
  assume "id_chars_to_end r"
  then have run: "takeWhile is_id_char r \<noteq> [] \<and>
      (dropWhile is_id_char r = [] \<or> dropWhile is_id_char r = [CHR 0x0A])"
    unfolding id_chars_to_end_def Let_def .
  have split: "r = takeWhile is_id_char r @ dropWhile is_id_char r"
    by (rule takeWhile_dropWhile_id [symmetric])
  have all: "\<forall>c\<in>set (takeWhile is_id_char r). is_id_char c"
    by (blast dest: set_takeWhileD)
  from split run all
  have "r = takeWhile is_id_char r @ dropWhile is_id_char r \<and> takeWhile is_id_char r \<noteq> [] \<and>
      (\<forall>c\<in>set (takeWhile is_id_char r). is_id_char c) \<and>
      (dropWhile is_id_char r = [] \<or> dropWhile is_id_char r = [CHR 0x0A])"
    by (intro conjI) (rule split, rule conjunct1 [OF run], rule all, rule conjunct2 [OF run])
  then show "\<exists>body tail. r = body @ tail \<and> body \<noteq> [] \<and> (\<forall>c\<in>set body. is_id_char c)
        \<and> (tail = [] \<or> tail = [CHR 0x0A])"
    by (intro exI)
next
  assume "\<exists>body tail. r = body @ tail \<and> body \<noteq> [] \<and> (\<forall>c\<in>set body. is_id_char c)
        \<and> (tail = [] \<or> tail = [CHR 0x0A])"
  then obtain body tail where r: "r = body @ tail" and ne: "body \<noteq> []"
    and all: "\<forall>c\<in>set body. is_id_char c" and tail: "tail = [] \<or> tail = [CHR 0x0A]"
    by blast
  from tail have tw: "takeWhile is_id_char tail = []"
    using not_id_char_newline by auto
  from tail have dw: "dropWhile is_id_char tail = tail"
    using not_id_char_newline by auto
  from all have "takeWhile is_id_char (body @ tail) = body"
    by (simp add: tw)
  moreover from all have "dropWhile is_id_char (body @ tail) = tail"
    by (simp add: dw)
  ultimately have "takeWhile is_id_char (body @ tail) \<noteq> [] \<and>
      (dropWhile is_id_char (body @ tail) = [] \<or> dropWhile is_id_char (body @ tail) = [CHR 0x0A])"
    using ne tail by (simp only: not_False_eq_True simp_thms)
  then show "id_chars_to_end r"
    unfolding id_chars_to_end_def Let_def r .
qed

lemma strip_prefix_Some: "strip_prefix p s = Some r \<Longrightarrow> s = p @ r"
proof -
  assume a: "strip_prefix p s = Some r"
  then have "take (length p) s = p" and "r = drop (length p) s"
    by (auto simp: strip_prefix_def split: if_splits)
  then show ?thesis
    using append_take_drop_id [of "length p" s] by simp
qed

text \<open>The captured group of the URL pattern is never empty and holds word characters only.\<close>

lemma match_playlist_url_pattern_group:
  assumes "match_playlist_url_pattern s = Some g"
  shows "g \<noteq> [] \<and> (\<forall>c\<in>set g. is_word_char c)
       \<and> (\<exists>rest. s = ''https://open.spotify.com/playlist/'' @ g @ rest)"
proof -
  from assms obtain r where r: "strip_prefix ''https://open.spotify.com/playlist/'' s = Some r"
    and g: "g = takeWhile is_word_char r" and ne: "g \<noteq> []"
    unfolding match_playlist_url_pattern_def Let_def
    by (cases "strip_prefix ''https://open.spotify.com/playlist/'' s")
       (simp_all split: if_splits)
  have "r = g @ dropWhile is_word_char r"
    unfolding g by (rule takeWhile_dropWhile_id [symmetric])
  then obtain rest where rest: "r = g @ rest" ..
  from strip_prefix_Some [OF r] have "s = ''https://open.spotify.com/playlist/'' @ g @ rest"
    unfolding rest .
  then have "\<exists>rest. s = ''https://open.spotify.com/playlist/'' @ g @ rest"
    by (rule exI)
  moreover have "\<forall>c\<in>set g. is_word_char c"
    unfolding g by (blast dest: set_takeWhileD)
  ultimately show ?thesis using ne by (intro conjI)
qed

text \<open>
  Claim C6. \<^verbatim>\<open>extract_playlist_id\<close> tries the identifier pattern first and returns the
  input unchanged when it matches; otherwise it returns the group captured by the URL
  pattern when that matches; otherwise it raises \<^verbatim>\<open>ValueError\<close> with a message that
  ends with the input. The playlist URL of the specification gives its identifier, the
  bare identifier is returned unchanged, and \<^verbatim>\<open>not a url\<close> raises.
\<close>

theorem extract_playlist_id_order:
  "(match_id_pattern s \<longrightarrow> extract_playlist_id s = Inr s) \<and>
   (\<not> match_id_pattern s \<and> match_playlist_url_pattern s = Some g \<longrightarrow>
      extract_playlist_id s = Inr g) \<and>
   (\<not> match_id_pattern s \<and> match_playlist_url_pattern s = None \<longrightarrow>
      extract_playlist_id s = Inl (ValueError (''Invalid playlist URL or playlist ID: '' @ s))) \<and>
   extract_playlist_id ''https://open.spotify.com/playlist/37i9dQZF1DXcBWIGoYBM5M''
     = Inr ''37i9dQZF1DXcBWIGoYBM5M'' \<and>
   extract_playlist_id ''37i9dQZF1DXcBWIGoYBM5M'' = Inr ''37i9dQZF1DXcBWIGoYBM5M'' \<and>
   extract_playlist_id ''not a url''
     = Inl (ValueError ''Invalid playlist URL or playlist ID: not a url'')"
proof -
  have order: "(match_id_pattern s \<longrightarrow> extract_playlist_id s = Inr s) \<and>
    (\<not> match_id_pattern s \<and> match_playlist_url_pattern s = Some g \<longrightarrow>
       extract_playlist_id s = Inr g) \<and>
    (\<not> match_id_pattern s \<and> match_playlist_url_pattern s = None \<longrightarrow>
       extract_playlist_id s = Inl (ValueError (''Invalid playlist URL or playlist ID: '' @ s)))"
    by (simp add: extract_playlist_id_def)
  have url: "extract_playlist_id ''https://open.spotify.com/playlist/37i9dQZF1DXcBWIGoYBM5M''
      = Inr ''37i9dQZF1DXcBWIGoYBM5M''"
    by (simp add: playlist_id_defs)
  have bare: "extract_playlist_id ''37i9dQZF1DXcBWIGoYBM5M'' = Inr ''37i9dQZF1DXcBWIGoYBM5M''"
    by (simp add: playlist_id_defs)
  have bad: "extract_playlist_id ''not a url''
      = Inl (ValueError ''Invalid playlist URL or playlist ID: not a url'')"
    by (simp add: playlist_id_defs)
  from order url bare bad show ?thesis by blast
qed

theorem extract_playlist_id_order_witness:
  "match_id_pattern ''spotify:playlist:abc''
   \<and> extract_playlist_id ''spotify:playlist:abc'' = Inr ''spotify:playlist:abc''
   \<and> \<not> match_id_pattern ''https://open.spotify.com/playlist/abc_d?si=1''
   \<and> match_playlist_url_pattern ''https://open.spotify.com/playlist/abc_d?si=1'' = Some ''abc_d''
   \<and> extract_playlist_id ''https://open.spotify.com/playlist/abc_d?si=1'' = Inr ''abc_d''
   \<and> \<not> match_id_pattern ''https://open.spotify.com/playlist/''
   \<and> match_playlist_url_pattern ''https://open.spotify.com/playlist/'' = None
   \<and> extract_playlist_id ''https://open.spotify.com/playlist/''
       = Inl (ValueError ''Invalid playlist URL or playlist ID: https://open.spotify.com/playlist/'')"
proof -
  have a: "match_id_pattern ''spotify:playlist:abc''"
    by (simp add: playlist_id_defs)
  have b: "\<not> match_id_pattern ''https://open.spotify.com/playlist/abc_d?si=1''"
    by (simp add: playlist_id_defs)
  have c: "match_playlist_url_pattern ''https://open.spotify.com/playlist/abc_d?si=1'' = Some ''abc_d''"
    by (simp add: playlist_id_defs)
  have d: "\<not> match_id_pattern ''https://open.spotify.com/playlist/''"
    by (simp add: playlist_id_defs)
  have e: "match_playlist_url_pattern ''https://open.spotify.com/playlist/'' = None"
    by (simp add: playlist_id_defs)
  show ?thesis
    using a b c d e
      extract_playlist_id_order [of "''spotify:playlist:abc''" "''x''"]
      extract_playlist_id_order [of "''https://open.spotify.com/playlist/abc_d?si=1''" "''abc_d''"]
      extract_playlist_id_order [of "''https://open.spotify.com/playlist/''" "''x''"]
    by simp
qed

section \<open>Properties of the genre aggregation\<close>

subsection \<open>The scenario of the specification\<close>







subsection \<open>Counters\<close>

lemma counter_get_add:
  "counter_get (counter_add k n c) a = (if a = k then counter_get c k + n else counter_get c a)"
  by (simp add: counter_add_def counter_get_def map_of_dict_set)

lemma counter_get_fold_add:
  "counter_get (fold (\<lambda>k. counter_add k n) ks c) a = counter_get c a + count_list ks a * n"
  by (induction ks arbitrary: c) (simp_all add: counter_get_add)

lemma counter_get_count_track:
  "counter_get (count_track t c) a = counter_get c a + count_list (track_artists t) a"
  using counter_get_fold_add [of 1 "track_artists t" c a] by (simp add: count_track_def)

lemma count_list_append': "count_list (xs @ ys) a = count_list xs a + count_list ys a"
  by (induction xs) simp_all

lemma counter_get_count_items:
  "counter_get (count_items ts c) a
     = counter_get c a + count_list (concat (map track_artists ts)) a"
  unfolding count_items_def
  by (induction ts arbitrary: c) (simp_all add: counter_get_count_track count_list_append')

lemma count_items_append: "count_items (xs @ ys) c = count_items ys (count_items xs c)"
  by (simp add: count_items_def)

text \<open>Keys stay distinct, and the counts add up to the number of increments.\<close>

lemma dict_set_keys: "fst ` set (dict_set k v d) = insert k (fst ` set d)"
  by (induction d) auto

lemma distinct_dict_set: "distinct (map fst d) \<Longrightarrow> distinct (map fst (dict_set k v d))"
  by (induction d) (auto simp: dict_set_keys)

lemma sum_dict_set:
  "distinct (map fst d) \<Longrightarrow>
     sum_list (map snd (dict_set k v d)) + (case map_of d k of None \<Rightarrow> 0 | Some n \<Rightarrow> n)
       = sum_list (map snd d) + (v::nat)"
proof (induction d)
  case Nil
  show ?case by simp
next
  case (Cons kv d)
  then show ?case
    by (cases kv) (auto simp: map_of_eq_None_iff image_iff split: option.splits)
qed

lemma counter_add_total:
  "distinct (map fst c) \<Longrightarrow>
     distinct (map fst (counter_add k n c))
     \<and> sum_list (map snd (counter_add k n c)) = sum_list (map snd c) + n"
  using sum_dict_set [of c k "counter_get c k + n"]
  by (simp add: counter_add_def counter_get_def distinct_dict_set)

lemma fold_counter_add_total:
  "distinct (map fst c) \<Longrightarrow>
     distinct (map fst (fold (\<lambda>k. counter_add k n) ks c))
     \<and> sum_list (map snd (fold (\<lambda>k. counter_add k n) ks c)) = sum_list (map snd c) + length ks * n"
  by (induction ks arbitrary: c) (simp_all add: counter_add_total)

lemma count_track_total:
  "distinct (map fst c) \<Longrightarrow>
     distinct (map fst (count_track t c))
     \<and> sum_list (map snd (count_track t c)) = sum_list (map snd c) + length (track_artists t)"
  using fold_counter_add_total [of c 1 "track_artists t"] by (simp add: count_track_def)

lemma count_items_total:
  "distinct (map fst c) \<Longrightarrow>
     distinct (map fst (count_items ts c))
     \<and> sum_list (map snd (count_items ts c))
         = sum_list (map snd c) + length (concat (map track_artists ts))"
  unfolding count_items_def
  by (induction ts arbitrary: c) (simp_all add: count_track_total)

subsection \<open>Pagination\<close>

lemma page_count_last: "n \<le> 100 \<Longrightarrow> page_count n = 1"
proof -
  assume "n \<le> 100"
  then have "(n + 99) div 100 \<le> 1" by (simp add: div_le_mono [of "n + 99" 199 100, simplified])
  then show ?thesis by (simp add: page_count_def max_def)
qed

lemma page_count_more: "100 < n \<Longrightarrow> page_count n = Suc (page_count (n - 100))"
proof -
  assume a: "100 < n"
  then obtain m where m: "n = m + 100" and pos: "0 < m"
    by (metis add.commute less_imp_add_positive)
  have "(m + 100 + 99) div 100 = Suc ((m + 99) div 100)" by simp
  moreover from pos have "1 \<le> (m + 99) div 100" by (simp add: Suc_le_eq div_greater_zero_iff)
  ultimately show ?thesis by (simp add: page_count_def m max_def)
qed

lemma map_upt_Suc_shift: "map f [0..<Suc m] = f 0 # map (\<lambda>i. f (Suc i)) [0..<m]"
  by (simp add: upt_conv_Cons map_Suc_upt [symmetric] del: upt_Suc)

lemma artist_counts_loop_paginates:
  assumes pg: "paginates api pid ts"
  shows "artist_counts_loop api pid off arts calls =
     Some (Inr (count_items (drop off ts) arts),
           calls @ map (\<lambda>i. (off + i * limit, limit)) [0..<page_count (length ts - off)])"
proof (induction "length ts - off" arbitrary: off arts calls rule: less_induct)
  case less
  from pg obtain p where p: "playlist_tracks api pid off limit = Inr p"
    and items: "page_items p = take limit (drop off ts)"
    and more: "truthy (page_next p) \<longleftrightarrow> off + limit < length ts"
    unfolding paginates_def by blast
  show ?case
  proof (cases "off + limit < length ts")
    case False
    then have short: "length ts - off \<le> 100" by (simp add: limit_def)
    then have all: "take limit (drop off ts) = drop off ts" by (simp add: limit_def)
    from False more have stop: "\<not> truthy (page_next p)" by simp
    show ?thesis
      by (subst artist_counts_loop.simps)
         (simp add: p items all stop page_count_last [OF short])
  next
    case True
    then have long: "100 < length ts - off" by (simp add: limit_def)
    from True more have go: "truthy (page_next p)" by simp
    have smaller: "length ts - (off + limit) < length ts - off"
      using True by (simp add: limit_def)
    have rest: "length ts - (off + limit) = length ts - off - 100"
      by (simp add: limit_def)
    have split: "count_items (drop (off + limit) ts) (count_items (take limit (drop off ts)) arts)
        = count_items (drop off ts) arts"
    proof -
      have "drop (off + limit) ts = drop limit (drop off ts)"
        by (simp add: add.commute)
      then have "drop off ts = take limit (drop off ts) @ drop (off + limit) ts"
        by (simp only: append_take_drop_id)
      then have "count_items (drop off ts) arts
          = count_items (take limit (drop off ts) @ drop (off + limit) ts) arts"
        by simp
      then show ?thesis by (simp only: count_items_append)
    qed
    have idx: "map (\<lambda>i. (off + i * limit, limit)) [0..<Suc (page_count (length ts - off - 100))]
        = (off, limit) # map (\<lambda>i. (off + limit + i * limit, limit)) [0..<page_count (length ts - off - 100)]"
      by (simp only: map_upt_Suc_shift) (simp add: add.assoc)
    show ?thesis
      apply (subst artist_counts_loop.simps)
      apply (simp only: p items go sum.case not_True_eq_False if_False)
      apply (simp only: less.hyps [OF smaller] split rest page_count_more [OF long] idx)
      apply simp
      done
  qed
qed

lemma paginates_fake_api: "paginates (fake_api ts info) pid ts"
  by (simp add: paginates_def fake_api_def paged_source_def truthy_def)


text \<open>
  Claim C8 as stated fails for an empty playlist: the loop asks for a page before it
  looks at \<^verbatim>\<open>next\<close>, so it makes one listing call where the quotient of 0 tracks by
  the page size, rounded up, is 0.
\<close>

theorem get_artist_counts_counterexample:
  "paginates (fake_api [] scenario_info) ''p'' []
   \<and> get_artist_counts (fake_api [] scenario_info) ''p'' = Some (Inr [], [(0, 100)])
   \<and> length [(0::nat, 100::nat)] = 1
   \<and> (length ([] :: track list) + 99) div 100 = 0"
proof -
  have "get_artist_counts (fake_api [] scenario_info) ''p'' = Some (Inr [], [(0, 100)])"
    unfolding get_artist_counts_def
    by (subst artist_counts_loop.simps)
       (simp add: fake_api_def paged_source_def limit_def truthy_def count_items_def)
  then show ?thesis
    using paginates_fake_api [of "[]" scenario_info "''p''"] by simp
qed

text \<open>
  Claim C8, amended. For a source that answers every listing call with the tracks of
  its page and a \<^verbatim>\<open>next\<close> that is true exactly when more tracks follow,
  \<^verbatim>\<open>get_artist_counts\<close> returns; the count of every artist is the number of
  (track, artist) pairs with that artist over the whole playlist, and the counts add up to
  the number of all pairs; the listing calls are those at the offsets 0, 100, 200, ...,
  and there are as many as the number of tracks divided by 100 and rounded up, but one
  for an empty playlist.
\<close>

theorem get_artist_counts_paginated:
  assumes pg: "paginates api playlist_id ts"
  shows "\<exists>arts calls. get_artist_counts api playlist_id = Some (Inr arts, calls)
     \<and> (\<forall>a. counter_get arts a = count_list (concat (map track_artists ts)) a)
     \<and> sum_list (map snd arts) = length (concat (map track_artists ts))
     \<and> length calls = max 1 ((length ts + 99) div 100)
     \<and> calls = map (\<lambda>i. (i * 100, 100)) [0..<max 1 ((length ts + 99) div 100)]"
proof -
  define arts where "arts = count_items ts []"
  define calls where "calls = map (\<lambda>i. (i * 100, 100::nat)) [0..<max 1 ((length ts + 99) div 100)]"
  have "get_artist_counts api playlist_id = Some (Inr arts, calls)"
    unfolding get_artist_counts_def arts_def calls_def
    using artist_counts_loop_paginates [OF pg, of 0 "[]" "[]"]
    by (simp add: limit_def page_count_def)
  moreover have "\<forall>a. counter_get arts a = count_list (concat (map track_artists ts)) a"
  proof -
    have "counter_get [] a = 0" for a by (simp add: counter_get_def)
    then show ?thesis by (simp add: arts_def counter_get_count_items)
  qed
  moreover have "sum_list (map snd arts) = length (concat (map track_artists ts))"
    using count_items_total [of "[]" ts] by (simp add: arts_def)
  moreover have "length calls = max 1 ((length ts + 99) div 100)"
    by (simp add: calls_def)
  ultimately show ?thesis
    unfolding calls_def by blast
qed


theorem get_artist_counts_paginated_witness:
  "paginates (fake_api long_playlist scenario_info) ''p'' long_playlist
   \<and> (\<exists>arts calls. get_artist_counts (fake_api long_playlist scenario_info) ''p'' = Some (Inr arts, calls)
        \<and> counter_get arts ''X'' = 250 \<and> sum_list (map snd arts) = 250
        \<and> calls = [(0, 100), (100, 100), (200, 100)])"
proof -
  have pg: "paginates (fake_api long_playlist scenario_info) ''p'' long_playlist"
    by (rule paginates_fake_api)
  have len: "length (concat (map track_artists long_playlist)) = 250"
    by (simp add: long_playlist_def length_concat sum_list_replicate)
  have cnt: "count_list (concat (map track_artists long_playlist)) ''X'' = 250"
  proof -
    have "count_list (concat (replicate n [''X''])) ''X'' = n" for n :: nat
      by (induction n) simp_all
    then show ?thesis by (simp add: long_playlist_def)
  qed
  have pages: "map (\<lambda>i. (i * 100, 100)) [0..<max 1 ((length long_playlist + 99) div 100)]
      = [(0::nat, 100::nat), (100, 100), (200, 100)]"
    by (simp add: long_playlist_def upt_rec)
  from get_artist_counts_paginated [OF pg] obtain arts calls where
    "get_artist_counts (fake_api long_playlist scenario_info) ''p'' = Some (Inr arts, calls)"
    "counter_get arts ''X'' = count_list (concat (map track_artists long_playlist)) ''X''"
    "sum_list (map snd arts) = length (concat (map track_artists long_playlist))"
    "calls = map (\<lambda>i. (i * 100, 100)) [0..<max 1 ((length long_playlist + 99) div 100)]"
    by blast
  with len cnt pages have
    "get_artist_counts (fake_api long_playlist scenario_info) ''p'' = Some (Inr arts, calls)
        \<and> counter_get arts ''X'' = 250 \<and> sum_list (map snd arts) = 250
        \<and> calls = [(0, 100), (100, 100), (200, 100)]"
    by simp
  then have "\<exists>arts calls. get_artist_counts (fake_api long_playlist scenario_info) ''p'' = Some (Inr arts, calls)
        \<and> counter_get arts ''X'' = 250 \<and> sum_list (map snd arts) = 250
        \<and> calls = [(0, 100), (100, 100), (200, 100)]"
    by (intro exI)
  with pg show ?thesis by (intro conjI)
qed


subsection \<open>Genre folding\<close>














end
